theory Spec2Isabelle
  imports Complex_Main
begin

section \<open>The notebook's data\<close>

text \<open>
  The notebook works on numpy arrays of floats. A one-dimensional array is a list of
  reals; a two-dimensional array carries its column count beside its rows, because an
  array of shape \<open>(0, k)\<close> still has \<open>k\<close> columns. Python integers are unbounded.
  Every exception the cell can raise is a value of \<open>error\<close>.
\<close>

datatype error = ValueError | IndexError | LinAlgError | ZeroDivisionError

text \<open>Statements in sequence: an exception skips every later statement.\<close>

definition and_then :: "error + 'a \<Rightarrow> ('a \<Rightarrow> error + 'b) \<Rightarrow> error + 'b" where
  "and_then r f = (case r of Inl e \<Rightarrow> Inl e | Inr v \<Rightarrow> f v)"

type_synonym vector = "real list"

record matrix =
  ncols :: nat
  rows :: "vector list"

definition wf_matrix :: "matrix \<Rightarrow> bool" where
  "wf_matrix m = list_all (\<lambda>r. length r = ncols m) (rows m)"

section \<open>The numpy operations the cell uses\<close>

text \<open>\<^verbatim>\<open>xs[:k]\<close>: a negative bound counts from the end, a bound past the end is clamped.\<close>

definition slice_to :: "'a list \<Rightarrow> int \<Rightarrow> 'a list" where
  "slice_to xs k =
     (if k < 0 then take (nat (int (length xs) + k)) xs else take (nat k) xs)"

text \<open>
  \<^verbatim>\<open>np.vstack\<close> of a list of one-dimensional arrays: one row per array. It raises
  ValueError on an empty list and when the arrays differ in length.
\<close>

definition vstack :: "vector list \<Rightarrow> error + matrix" where
  "vstack vs =
     (case vs of
        [] \<Rightarrow> Inl ValueError
      | v # ws \<Rightarrow>
          if list_all (\<lambda>w. length w = length v) ws
          then Inr \<lparr>ncols = length v, rows = vs\<rparr>
          else Inl ValueError)"

text \<open>\<^verbatim>\<open>.T\<close>: row \<open>j\<close> of the result is column \<open>j\<close> of the array.\<close>

definition T :: "matrix \<Rightarrow> matrix" where
  "T m = \<lparr>ncols = length (rows m),
          rows = map (\<lambda>j. map (\<lambda>r. r ! j) (rows m)) [0..<ncols m]\<rparr>"

text \<open>\<^verbatim>\<open>np.vstack(basis_vectors[:n_basis_vectors]).T\<close>\<close>

definition design_matrix_expr :: "vector list \<Rightarrow> int \<Rightarrow> error + matrix" where
  "design_matrix_expr bvs n_basis_vectors =
     and_then (vstack (slice_to bvs n_basis_vectors)) (\<lambda>m. Inr (T m))"

text \<open>
  \<^verbatim>\<open>np.arange(a, b)\<close> and \<^verbatim>\<open>range(a, b)\<close>: the integers from \<open>a\<close> up to \<open>b - 1\<close>, none
  when \<open>b \<le> a\<close>. \<^verbatim>\<open>np.r_[a:b, c:d]\<close> concatenates two such ranges.
\<close>

definition arange :: "int \<Rightarrow> int \<Rightarrow> int list" where
  "arange a b = [a..b - 1]"

definition np_r :: "int \<Rightarrow> int \<Rightarrow> int \<Rightarrow> int \<Rightarrow> int list" where
  "np_r a b c d = arange a b @ arange c d"

text \<open>\<^verbatim>\<open>np.r_[0:i-1, i+1:len(x)]\<close>, the index array of the leave-one-out loop.\<close>

definition indices :: "int \<Rightarrow> nat \<Rightarrow> int list" where
  "indices i n = np_r 0 (i - 1) (i + 1) (int n)"

text \<open>
  Indexing with an integer, and with an integer array (which copies the selected
  elements). A negative index counts from the end; an index outside \<open>[-n, n)\<close> raises
  IndexError.
\<close>

definition getitem :: "'a list \<Rightarrow> int \<Rightarrow> error + 'a" where
  "getitem xs i =
     (let n = int (length xs); j = (if i < 0 then i + n else i)
      in if 0 \<le> j \<and> j < n then Inr (xs ! nat j) else Inl IndexError)"

definition take_indices :: "'a list \<Rightarrow> int list \<Rightarrow> error + 'a list" where
  "take_indices xs js =
     (let n = int (length xs)
      in if list_all (\<lambda>j. - n \<le> j \<and> j < n) js
         then Inr (map (\<lambda>j. xs ! nat (if j < 0 then j + n else j)) js)
         else Inl IndexError)"

text \<open>\<^verbatim>\<open>m[js, :]\<close> and \<^verbatim>\<open>m[i, :]\<close>\<close>

definition take_rows :: "matrix \<Rightarrow> int list \<Rightarrow> error + matrix" where
  "take_rows m js =
     and_then (take_indices (rows m) js) (\<lambda>rs. Inr \<lparr>ncols = ncols m, rows = rs\<rparr>)"

definition row :: "matrix \<Rightarrow> int \<Rightarrow> error + vector" where
  "row m i = getitem (rows m) i"

text \<open>\<^verbatim>\<open>a @ b\<close> on two one-dimensional arrays: their dot product, ValueError when the
  lengths differ.\<close>

definition dot :: "vector \<Rightarrow> vector \<Rightarrow> real" where
  "dot a b = sum_list (map2 (*) a b)"

definition matmul :: "vector \<Rightarrow> vector \<Rightarrow> error + real" where
  "matmul a b = (if length a = length b then Inr (dot a b) else Inl ValueError)"

section \<open>The least-squares solve\<close>

text \<open>
  \<^verbatim>\<open>np.linalg.lstsq(a, b, rcond=-1)[0]\<close> is a library routine, in 64-bit floating
  point. It raises LinAlgError when \<open>a\<close> and \<open>b\<close> differ in their number of rows, and
  otherwise returns weights, whatever the shape and rank of \<open>a\<close>; for an array without
  rows they are zero.

  \<open>lstsq\<close> below is its idealisation in exact arithmetic: the least-squares solution of
  smallest norm, computed as the pseudo-inverse of \<open>a\<close> applied to \<open>b\<close>, the
  pseudo-inverse built one column at a time (Greville's recursion). It leaves out what
  the routine does with numbers: rounding, and the cut-off \<^verbatim>\<open>rcond=-1\<close>, under which a
  singular value below machine precision times the largest counts as zero. On a design
  matrix whose columns are dependent, or nearly so, the routine's weights can therefore
  be far from the ones computed here, and nothing proved of \<open>lstsq\<close> is a statement
  about the routine there. The model is used for what does not depend on that: when the
  solve raises, the length of what it returns, and its value on small well-conditioned
  systems. The routine's other exception, for a decomposition that does not converge,
  is not modelled.
\<close>

definition vsub :: "vector \<Rightarrow> vector \<Rightarrow> vector" where
  "vsub a b = map2 (-) a b"

definition vadd :: "vector \<Rightarrow> vector \<Rightarrow> vector" where
  "vadd a b = map2 (+) a b"

definition smult :: "real \<Rightarrow> vector \<Rightarrow> vector" where
  "smult c a = map ((*) c) a"

text \<open>The product of a matrix, given by its rows, with a vector.\<close>

definition mat_vec :: "vector list \<Rightarrow> vector \<Rightarrow> vector" where
  "mat_vec rs v = map (\<lambda>r. dot r v) rs"

text \<open>\<open>lincomb n d vs\<close>: the sum of the vectors \<open>vs\<close> (of length \<open>n\<close>) weighted by \<open>d\<close>.\<close>

fun lincomb :: "nat \<Rightarrow> real list \<Rightarrow> vector list \<Rightarrow> vector" where
  "lincomb n (c # cs) (v # vs) = vadd (smult c v) (lincomb n cs vs)"
| "lincomb n _ _ = replicate n 0"

text \<open>
  \<open>pinv n cs\<close>: the rows of the pseudo-inverse of the matrix whose columns are \<open>cs\<close>
  (each of length \<open>n\<close>), one row per column.
\<close>

fun pinv :: "nat \<Rightarrow> vector list \<Rightarrow> vector list" where
  "pinv n [] = []"
| "pinv n (a # A) =
     (let P = pinv n A;
          d = mat_vec P a;
          c = vsub a (lincomb n d A);
          b = (if dot c c \<noteq> 0 then smult (1 / dot c c) c
               else smult (1 / (1 + dot d d)) (lincomb n d P))
      in b # map2 (\<lambda>dj p. vsub p (smult dj b)) d P)"

declare pinv.simps(2) [simp del]

definition columns :: "matrix \<Rightarrow> vector list" where
  "columns m = map (\<lambda>j. map (\<lambda>r. r ! j) (rows m)) [0..<ncols m]"

definition lstsq :: "matrix \<Rightarrow> vector \<Rightarrow> error + vector" where
  "lstsq a b =
     (if length (rows a) \<noteq> length b then Inl LinAlgError
      else Inr (mat_vec (pinv (length b) (columns a)) b))"

section \<open>The leave-one-out cell\<close>

text \<open>
  The cell's variables live in the notebook's global namespace. \<open>stdout\<close> collects what
  the cell prints: the number of basis vectors and the statistic, one pair per model.
\<close>

record state =
  x :: vector
  y :: vector
  basis_vectors :: "vector list"
  design_matrix :: matrix
  loo_statistic :: real
  stdout :: "(int \<times> real) list"

type_synonym solver = "matrix \<Rightarrow> vector \<Rightarrow> error + vector"

text \<open>
  One pass of the inner loop, for the left-out index \<open>i\<close>. The solve is the only call
  that leaves the cell, so the pass is written for any solver; the notebook's is
  \<open>lstsq\<close>. No statement assigns into an array: the index arrays select copies, and
  \<^verbatim>\<open>+=\<close> rebinds a scalar.
\<close>

definition loo_body :: "solver \<Rightarrow> int \<Rightarrow> state \<Rightarrow> error + state" where
  "loo_body solve i s =
     (let idx = indices i (length (x s)) in
      and_then (take_indices (x s) idx) (\<lambda>x_in.
      and_then (take_indices (y s) idx) (\<lambda>y_in.
      and_then (take_rows (design_matrix s) idx) (\<lambda>design_matrix_in.
      and_then (solve design_matrix_in y_in) (\<lambda>betas.
      and_then (row (design_matrix s) i) (\<lambda>r.
      and_then (matmul r betas) (\<lambda>y_out.
      and_then (getitem (y s) i) (\<lambda>y_i.
      Inr (s\<lparr>loo_statistic := loo_statistic s + (y_i - y_out)\<^sup>2\<rparr>)))))))))"

text \<open>A \<^verbatim>\<open>for\<close> loop: the first exception ends it.\<close>

fun for_loop :: "('i \<Rightarrow> state \<Rightarrow> error + state) \<Rightarrow> 'i list \<Rightarrow> state \<Rightarrow> error + state" where
  "for_loop body [] s = Inr s"
| "for_loop body (i # is) s =
     (case body i s of Inl e \<Rightarrow> Inl e | Inr s' \<Rightarrow> for_loop body is s')"

text \<open>
  The statistic of one model: from \<^verbatim>\<open>loo_statistic = 0\<close> to \<^verbatim>\<open>loo_statistic /= len(x)\<close>.
  With no data the loop does not run and the division is of the integer 0 by the
  integer 0, which raises ZeroDivisionError.
\<close>

definition loo :: "solver \<Rightarrow> state \<Rightarrow> error + state" where
  "loo solve s =
     and_then
       (for_loop (loo_body solve) (arange 0 (int (length (x s)))) (s\<lparr>loo_statistic := 0\<rparr>))
       (\<lambda>s'. if length (x s') = 0 then Inl ZeroDivisionError
             else Inr (s'\<lparr>loo_statistic := loo_statistic s' / real (length (x s'))\<rparr>))"

text \<open>One pass of the outer loop, and the whole cell.\<close>

definition model_body :: "solver \<Rightarrow> int \<Rightarrow> state \<Rightarrow> error + state" where
  "model_body solve n_basis_vectors s =
     and_then (design_matrix_expr (basis_vectors s) n_basis_vectors) (\<lambda>m.
     and_then (loo solve (s\<lparr>design_matrix := m\<rparr>)) (\<lambda>s'.
     Inr (s'\<lparr>stdout := stdout s' @ [(n_basis_vectors, loo_statistic s')]\<rparr>)))"

definition cell :: "solver \<Rightarrow> state \<Rightarrow> error + state" where
  "cell solve s =
     for_loop (model_body solve) (arange 1 (int (length (basis_vectors s)) + 1)) s"

text \<open>
  The statistic as the notebook's text describes it (fit on the other \<open>n - 1\<close>
  observations, predict the missing one, sum the squared residuals, normalise): the
  same computation with exactly the index \<open>i\<close> left out. It is the reference the cell is
  compared with.
\<close>

definition all_but :: "int \<Rightarrow> nat \<Rightarrow> int list" where
  "all_but i n = np_r 0 i (i + 1) (int n)"

definition reference_term :: "solver \<Rightarrow> matrix \<Rightarrow> vector \<Rightarrow> int \<Rightarrow> error + real" where
  "reference_term solve m ys i =
     (let idx = all_but i (length ys) in
      and_then (take_indices ys idx) (\<lambda>y_in.
      and_then (take_rows m idx) (\<lambda>m_in.
      and_then (solve m_in y_in) (\<lambda>betas.
      and_then (row m i) (\<lambda>r.
      and_then (matmul r betas) (\<lambda>y_out.
      and_then (getitem ys i) (\<lambda>y_i.
      Inr ((y_i - y_out)\<^sup>2))))))))"

fun sum_terms :: "(int \<Rightarrow> error + real) \<Rightarrow> int list \<Rightarrow> error + real" where
  "sum_terms f [] = Inr 0"
| "sum_terms f (i # is) =
     (case f i of
        Inl e \<Rightarrow> Inl e
      | Inr t \<Rightarrow> (case sum_terms f is of Inl e \<Rightarrow> Inl e | Inr r \<Rightarrow> Inr (t + r)))"

definition loo_reference :: "solver \<Rightarrow> matrix \<Rightarrow> vector \<Rightarrow> error + real" where
  "loo_reference solve m ys =
     and_then (sum_terms (reference_term solve m ys) (arange 0 (int (length ys))))
       (\<lambda>t. if length ys = 0 then Inl ZeroDivisionError else Inr (t / real (length ys)))"

text \<open>A small data set for evaluating the cell: three observations, two basis vectors.\<close>

definition example_state :: state where
  "example_state =
     \<lparr>x = [0, 1, 2], y = [0, 0, 3], basis_vectors = [[1, 1, 1], [0, 1, 2]],
      design_matrix = \<lparr>ncols = 1, rows = [[1], [1], [1]]\<rparr>,
      loo_statistic = 0, stdout = []\<rparr>"

text \<open>The same data under the model of both basis vectors, a straight line.\<close>

definition line_state :: state where
  "line_state = example_state\<lparr>design_matrix := \<lparr>ncols = 2, rows = [[1, 0], [1, 1], [1, 2]]\<rparr>\<rparr>"

text \<open>
  Two observations under a model of two basis vectors: every training set of the loop
  has fewer rows than the design matrix has columns.
\<close>

definition two_point_state :: state where
  "two_point_state =
     \<lparr>x = [0, 1], y = [1, 5], basis_vectors = [[1, 1], [0, 1]],
      design_matrix = \<lparr>ncols = 2, rows = [[1, 0], [1, 1]]\<rparr>,
      loo_statistic = 0, stdout = []\<rparr>"

text \<open>
  A solver that rejects a system with fewer rows than columns. It is not the
  notebook's; it exercises what the loop does when a solve raises.
\<close>

definition checked_lstsq :: solver where
  "checked_lstsq a b = (if length (rows a) < ncols a then Inl LinAlgError else lstsq a b)"

section \<open>What a least-squares solution is\<close>

text \<open>A list of vectors of one length \<open>n\<close>: the columns of a matrix of \<open>n\<close> rows.\<close>

definition vectors :: "nat \<Rightarrow> vector list \<Rightarrow> bool" where
  "vectors n vs = list_all (\<lambda>v. length v = n) vs"

text \<open>The fitted values: the columns combined with the weights of the exact solve.\<close>

definition fitted :: "nat \<Rightarrow> vector list \<Rightarrow> vector \<Rightarrow> vector" where
  "fitted n A v = lincomb n (mat_vec (pinv n A) v) A"

text \<open>
  The residual of a weight vector; the weight vectors that make its squared length
  least; and, among those, the ones of least squared length themselves.
\<close>

definition residual :: "matrix \<Rightarrow> vector \<Rightarrow> vector \<Rightarrow> vector" where
  "residual X ys betas = vsub ys (mat_vec (rows X) betas)"

definition is_least_squares :: "matrix \<Rightarrow> vector \<Rightarrow> vector \<Rightarrow> bool" where
  "is_least_squares X ys betas \<longleftrightarrow>
     length betas = ncols X
     \<and> (\<forall>g. length g = ncols X \<longrightarrow>
          dot (residual X ys betas) (residual X ys betas)
          \<le> dot (residual X ys g) (residual X ys g))"

definition is_minimum_norm :: "matrix \<Rightarrow> vector \<Rightarrow> vector \<Rightarrow> bool" where
  "is_minimum_norm X ys betas \<longleftrightarrow>
     (\<forall>g. is_least_squares X ys g \<longrightarrow> dot betas betas \<le> dot g g)"

section \<open>Sequencing and the design matrix\<close>

lemma and_then_Inr [simp]: "and_then (Inr v) f = f v"
  by (simp add: and_then_def)

lemma and_then_Inl [simp]: "and_then (Inl e) f = Inl e"
  by (simp add: and_then_def)

lemma and_then_eq_Inr:
  "and_then r f = Inr w \<longleftrightarrow> (\<exists>v. r = Inr v \<and> f v = Inr w)"
  by (cases r) simp_all

lemma slice_to_take: "0 \<le> k \<Longrightarrow> slice_to xs k = take (nat k) xs"
  by (simp add: slice_to_def)

lemma slice_to_past_end: "int (length xs) \<le> k \<Longrightarrow> slice_to xs k = xs"
  by (simp add: slice_to_def)

lemma vstack_empty: "vstack [] = Inl ValueError"
  by (simp add: vstack_def)

lemma vstack_uniform:
  assumes "vs \<noteq> []" and "\<forall>v\<in>set vs. length v = n"
  shows "vstack vs = Inr \<lparr>ncols = n, rows = vs\<rparr>"
proof (cases vs)
  case Nil
  with assms(1) show ?thesis by simp
next
  case (Cons v ws)
  with assms(2) have "length v = n" and "list_all (\<lambda>w. length w = length v) ws"
    by (simp_all add: list_all_iff)
  with Cons show ?thesis by (simp add: vstack_def)
qed

lemma T_rows_length: "length (rows (T m)) = ncols m"
  by (simp add: T_def)

lemma T_ncols: "ncols (T m) = length (rows m)"
  by (simp add: T_def)

lemma T_wf: "wf_matrix (T m)"
  by (simp add: T_def wf_matrix_def list_all_iff)

lemma columns_T:
  assumes "\<forall>v\<in>set vs. length v = n"
  shows "columns (T \<lparr>ncols = n, rows = vs\<rparr>) = vs"
proof (rule nth_equalityI)
  show "length (columns (T \<lparr>ncols = n, rows = vs\<rparr>)) = length vs"
    by (simp add: columns_def T_def)
next
  fix j
  assume "j < length (columns (T \<lparr>ncols = n, rows = vs\<rparr>))"
  then have j: "j < length vs"
    by (simp add: columns_def T_def)
  with assms have len: "length (vs ! j) = n"
    by simp
  have "columns (T \<lparr>ncols = n, rows = vs\<rparr>) ! j = map (\<lambda>i. (vs ! j) ! i) [0..<n]"
    using j by (simp add: columns_def T_def)
  also have "\<dots> = vs ! j"
    using len map_nth [of "vs ! j"] by simp
  finally show "columns (T \<lparr>ncols = n, rows = vs\<rparr>) ! j = vs ! j" .
qed

lemma design_matrix_expr_zero: "design_matrix_expr bvs 0 = Inl ValueError"
  by (simp add: design_matrix_expr_def slice_to_def vstack_def)

lemma design_matrix_expr_prefix:
  assumes "bvs \<noteq> []" and "\<forall>v\<in>set bvs. length v = n" and "1 \<le> k"
  shows "design_matrix_expr bvs k = Inr (T \<lparr>ncols = n, rows = take (nat k) bvs\<rparr>)"
proof -
  have "take (nat k) bvs \<noteq> []"
    using assms(1,3) by simp
  moreover have "\<forall>v\<in>set (take (nat k) bvs). length v = n"
    using assms(2) by (meson in_set_takeD)
  ultimately have "vstack (take (nat k) bvs) = Inr \<lparr>ncols = n, rows = take (nat k) bvs\<rparr>"
    by (rule vstack_uniform)
  then show ?thesis
    using assms(3) by (simp add: design_matrix_expr_def slice_to_take)
qed

text \<open>
  Claim C6. For basis vectors that all have length \<open>n\<close> and a count \<open>k\<close> with
  \<open>1 \<le> k \<le> len(basis_vectors)\<close>, the design matrix is built without an exception, has
  \<open>n\<close> rows of \<open>k\<close> entries each, and its column \<open>j\<close> is \<open>basis_vectors[j]\<close> for every
  \<open>j < k\<close>.
\<close>

theorem design_matrix_columns:
  assumes "\<forall>v\<in>set bvs. length v = n" and "1 \<le> k" and "k \<le> int (length bvs)"
  shows "\<exists>m. design_matrix_expr bvs k = Inr m \<and> length (rows m) = n \<and> ncols m = nat k
               \<and> wf_matrix m \<and> (\<forall>j<nat k. columns m ! j = bvs ! j)"
proof -
  let ?vs = "take (nat k) bvs"
  let ?m = "T \<lparr>ncols = n, rows = ?vs\<rparr>"
  have ne: "bvs \<noteq> []"
    using assms(2,3) by auto
  have eq: "design_matrix_expr bvs k = Inr ?m"
    using ne assms(1,2) by (rule design_matrix_expr_prefix)
  have "\<forall>v\<in>set ?vs. length v = n"
    using assms(1) by (meson in_set_takeD)
  then have cols: "columns ?m = ?vs"
    by (rule columns_T)
  have "length (rows ?m) = n"
    by (simp add: T_rows_length)
  moreover have "ncols ?m = nat k"
    using assms(2,3) by (simp add: T_ncols)
  moreover have "wf_matrix ?m"
    by (rule T_wf)
  moreover have "\<forall>j<nat k. columns ?m ! j = bvs ! j"
    by (simp add: cols)
  ultimately show ?thesis
    using eq by blast
qed

theorem design_matrix_columns_witness:
  "list_all (\<lambda>v. length v = 3) [[1, 2, 3], [4, 5, 6 :: real]]
   \<and> design_matrix_expr [[1, 2, 3], [4, 5, 6]] 2
       = Inr \<lparr>ncols = 2, rows = [[1, 4], [2, 5], [3, 6]]\<rparr>
   \<and> wf_matrix \<lparr>ncols = 2, rows = [[1, 4], [2, 5], [3, 6]]\<rparr>
   \<and> columns \<lparr>ncols = 2, rows = [[1, 4], [2, 5], [3, 6]]\<rparr> ! 0 = [1, 2, 3]
   \<and> columns \<lparr>ncols = 2, rows = [[1, 4], [2, 5], [3, 6]]\<rparr> ! 1 = [4, 5, 6]"
proof -
  let ?bvs = "[[1, 2, 3], [4, 5, 6 :: real]]"
  let ?m = "\<lparr>ncols = 2, rows = [[1, 4], [2, 5], [3, 6 :: real]]\<rparr>"
  have len: "\<forall>v\<in>set ?bvs. length v = 3"
    by simp
  have run: "design_matrix_expr ?bvs 2 = Inr ?m"
    by (simp add: design_matrix_expr_def slice_to_def vstack_def T_def upt_rec)
  from design_matrix_columns [OF len, of 2] run
  have "wf_matrix ?m" and cols: "\<forall>j<nat 2. columns ?m ! j = ?bvs ! j"
    by auto
  moreover from cols have "columns ?m ! 0 = ?bvs ! 0" and "columns ?m ! 1 = ?bvs ! 1"
    by simp_all
  ultimately show ?thesis
    using run by simp
qed

lemma design_matrix_expr_past_end:
  assumes "int (length bvs) \<le> k"
  shows "design_matrix_expr bvs k = design_matrix_expr bvs (int (length bvs))"
  using assms by (simp add: design_matrix_expr_def slice_to_past_end)

text \<open>
  A count past the end of the list is not an error: the slice is clamped, and the
  matrix of all the basis vectors comes back.
\<close>

theorem design_matrix_count_counterexample:
  "design_matrix_expr [[1, 2], [3, 4]] 5 = Inr \<lparr>ncols = 2, rows = [[1, 3], [2, 4]]\<rparr>"
  by (simp add: design_matrix_expr_def slice_to_def vstack_def T_def upt_rec)

text \<open>
  Claim C2, as the code has it. A count of 0 raises ValueError (the stacking of an
  empty list; the cell has no error of its own for the count). Over a non-empty list of
  basis vectors of one length every count \<open>k \<ge> 1\<close> succeeds, and gives the columns
  \<open>basis_vectors[:k]\<close>; a count greater than the number of basis vectors gives the
  same matrix as the count equal to it.
\<close>

theorem design_matrix_count:
  "design_matrix_expr bvs 0 = Inl ValueError
   \<and> (bvs \<noteq> [] \<and> (\<forall>v\<in>set bvs. length v = n) \<and> 1 \<le> k \<longrightarrow>
        design_matrix_expr bvs k = Inr (T \<lparr>ncols = n, rows = take (nat k) bvs\<rparr>))
   \<and> (int (length bvs) < k \<longrightarrow>
        design_matrix_expr bvs k = design_matrix_expr bvs (int (length bvs)))"
  using design_matrix_expr_zero [of bvs] design_matrix_expr_prefix [of bvs n k]
    design_matrix_expr_past_end [of bvs k]
  by simp

theorem design_matrix_count_witness:
  "[[1, 2], [3, 4 :: real]] \<noteq> [] \<and> list_all (\<lambda>v. length v = 2) [[1, 2], [3, 4 :: real]]
   \<and> (1 :: int) \<le> 5 \<and> int (length [[1, 2], [3, 4 :: real]]) < 5
   \<and> design_matrix_expr [[1, 2], [3, 4]] 0 = Inl ValueError
   \<and> design_matrix_expr [[1, 2], [3, 4]] 5
       = Inr (T \<lparr>ncols = 2, rows = take (nat 5) [[1, 2], [3, 4]]\<rparr>)
   \<and> design_matrix_expr [[1, 2], [3, 4]] 5
       = design_matrix_expr [[1, 2], [3, 4]] (int (length [[1, 2], [3, 4 :: real]]))"
  using design_matrix_count [of "[[1, 2], [3, 4]]" 2 5] by auto

section \<open>The index array of the loop\<close>

lemma indices_first: "indices 0 n = [1..int n - 1]"
  by (simp add: indices_def np_r_def arange_def)

lemma indices_later: "1 \<le> i \<Longrightarrow> indices i n = [0..i - 2] @ [i + 1..int n - 1]"
  by (simp add: indices_def np_r_def arange_def)

lemma indices_miss_previous:
  assumes "1 \<le> i"
  shows "i - 1 \<notin> set (indices i n)" and "i \<notin> set (indices i n)"
  using assms by (simp_all add: indices_later)

lemma indices_length:
  assumes "1 \<le> i" and "i < int n"
  shows "length (indices i n) = n - 2"
  using assms by (simp add: indices_later)

lemma all_but_set: "0 \<le> i \<Longrightarrow> i < int n \<Longrightarrow> set (all_but i n) = {0..int n - 1} - {i}"
  by (auto simp add: all_but_def np_r_def arange_def)

lemma all_but_length: "0 \<le> i \<Longrightarrow> i < int n \<Longrightarrow> length (all_but i n) = n - 1"
  by (simp add: all_but_def np_r_def arange_def)

text \<open>
  Claim C1 asks that the training set of every pass be all rows but row \<open>i\<close>. The code
  does this only for \<open>i = 0\<close> (\<open>indices_first\<close>). For every \<open>i \<ge> 1\<close> the first range
  stops at \<open>i - 2\<close>, so row \<open>i - 1\<close> is left out as well and \<open>n - 2\<close> rows remain
  (\<open>indices_later\<close>, \<open>indices_miss_previous\<close>, \<open>indices_length\<close>). At \<open>i = 1\<close> of three
  rows the solve receives row 2 alone, where all rows but row 1 are rows 0 and 2.
\<close>

theorem indices_skip_two:
  "indices 1 3 = [2]
   \<and> take_rows \<lparr>ncols = 1, rows = [[10], [20], [30]]\<rparr> (indices 1 3)
       = Inr \<lparr>ncols = 1, rows = [[30]]\<rparr>
   \<and> all_but 1 3 = [0, 2]"
  by (simp add: indices_def all_but_def np_r_def arange_def upto.simps take_rows_def
      take_indices_def)

section \<open>The statistic\<close>

text \<open>
  Claim C4 asks for the mean of the squared errors of the fits that leave out index \<open>i\<close>
  alone. On the example (a constant model, so each fit is the mean of its training
  observations) the cell fits on rows \<open>{1, 2}\<close>, \<open>{2}\<close> and \<open>{0}\<close> and returns
  \<open>(9/4 + 9 + 9) / 3 = 27/4\<close>; the fits on \<open>{1, 2}\<close>, \<open>{0, 2}\<close> and \<open>{0, 1}\<close> give
  \<open>(9/4 + 9/4 + 9) / 3 = 9/2\<close>.
\<close>

theorem loo_differs_from_reference:
  "loo lstsq example_state = Inr (example_state\<lparr>loo_statistic := 27 / 4\<rparr>)
   \<and> loo_reference lstsq (design_matrix example_state) (y example_state) = Inr (9 / 2)"
  by code_simp

section \<open>What the loops change\<close>

text \<open>
  A pass of the inner loop changes \<open>loo_statistic\<close> alone, and only upwards; so the
  statistic of a model is never negative.
\<close>

lemma loo_body_update:
  assumes "loo_body solve i s = Inr s'"
  shows "\<exists>t. s' = s\<lparr>loo_statistic := t\<rparr> \<and> loo_statistic s \<le> t"
proof -
  from assms obtain y_i y_out :: real
    where "s' = s\<lparr>loo_statistic := loo_statistic s + (y_i - y_out)\<^sup>2\<rparr>"
    by (auto simp add: loo_body_def Let_def and_then_eq_Inr)
  moreover have "loo_statistic s \<le> loo_statistic s + (y_i - y_out)\<^sup>2"
    by simp
  ultimately show ?thesis by blast
qed

lemma for_loop_loo_body_update:
  "for_loop (loo_body solve) js s = Inr s'
   \<Longrightarrow> \<exists>t. s' = s\<lparr>loo_statistic := t\<rparr> \<and> loo_statistic s \<le> t"
proof (induction js arbitrary: s)
  case Nil
  then have "s' = s\<lparr>loo_statistic := loo_statistic s\<rparr>" by simp
  then show ?case by blast
next
  case (Cons j js)
  from Cons.prems obtain s1
    where first: "loo_body solve j s = Inr s1"
      and rest: "for_loop (loo_body solve) js s1 = Inr s'"
    by (auto split: sum.splits)
  from loo_body_update [OF first] obtain t1
    where s1: "s1 = s\<lparr>loo_statistic := t1\<rparr>" and le1: "loo_statistic s \<le> t1"
    by blast
  from Cons.IH [OF rest] obtain t
    where s': "s' = s1\<lparr>loo_statistic := t\<rparr>" and le: "loo_statistic s1 \<le> t"
    by blast
  have "s' = s\<lparr>loo_statistic := t\<rparr>"
    using s1 s' by simp
  moreover have "loo_statistic s \<le> t"
    using s1 le1 le by simp
  ultimately show ?case by blast
qed

lemma loo_update:
  assumes "loo solve s = Inr s'"
  shows "\<exists>t. s' = s\<lparr>loo_statistic := t\<rparr> \<and> 0 \<le> t"
proof -
  let ?s0 = "s\<lparr>loo_statistic := 0\<rparr>"
  from assms obtain s1
    where run: "for_loop (loo_body solve) (arange 0 (int (length (x s)))) ?s0 = Inr s1"
      and fin: "s' = s1\<lparr>loo_statistic := loo_statistic s1 / real (length (x s1))\<rparr>"
    by (auto simp add: loo_def and_then_eq_Inr split: if_splits)
  from for_loop_loo_body_update [OF run] obtain t
    where s1: "s1 = ?s0\<lparr>loo_statistic := t\<rparr>" and le: "loo_statistic ?s0 \<le> t"
    by blast
  have "s' = s\<lparr>loo_statistic := t / real (length (x s))\<rparr>"
    using fin s1 by simp
  moreover have "0 \<le> t / real (length (x s))"
    using le by simp
  ultimately show ?thesis by blast
qed

lemma loo_nonneg: "loo solve s = Inr s' \<Longrightarrow> 0 \<le> loo_statistic s'"
  using loo_update [of solve s s'] by auto

lemma model_body_update:
  assumes "model_body solve k s = Inr s'"
  shows "x s' = x s \<and> y s' = y s \<and> basis_vectors s' = basis_vectors s"
proof -
  from assms obtain m s1
    where "loo solve (s\<lparr>design_matrix := m\<rparr>) = Inr s1"
      and s': "s' = s1\<lparr>stdout := stdout s1 @ [(k, loo_statistic s1)]\<rparr>"
    by (auto simp add: model_body_def and_then_eq_Inr)
  from loo_update [OF this(1)] obtain t
    where "s1 = s\<lparr>design_matrix := m, loo_statistic := t\<rparr>"
    by blast
  with s' show ?thesis by simp
qed

lemma for_loop_model_body_update:
  "for_loop (model_body solve) ks s = Inr s'
   \<Longrightarrow> x s' = x s \<and> y s' = y s \<and> basis_vectors s' = basis_vectors s"
proof (induction ks arbitrary: s)
  case Nil
  then show ?case by simp
next
  case (Cons k ks)
  from Cons.prems obtain s1
    where first: "model_body solve k s = Inr s1"
      and rest: "for_loop (model_body solve) ks s1 = Inr s'"
    by (auto split: sum.splits)
  show ?case
    using model_body_update [OF first] Cons.IH [OF rest] by simp
qed

text \<open>
  Claim C9. When the statistic of a model has been computed, \<open>x\<close>, \<open>y\<close>, every basis
  vector and the design matrix are what they were before; when the whole cell has run,
  \<open>x\<close>, \<open>y\<close> and the basis vectors are (the design matrix is then the last model's, a
  new array bound to the name). This holds for any solver that is a function of its
  arguments, \<open>lstsq\<close> among them.
\<close>

theorem inputs_unchanged:
  "(loo solve s = Inr s' \<longrightarrow>
      x s' = x s \<and> y s' = y s \<and> basis_vectors s' = basis_vectors s
      \<and> design_matrix s' = design_matrix s)
   \<and> (cell solve c = Inr c' \<longrightarrow>
      x c' = x c \<and> y c' = y c \<and> basis_vectors c' = basis_vectors c)"
proof (intro conjI impI)
  assume "loo solve s = Inr s'"
  from loo_update [OF this] obtain t where s': "s' = s\<lparr>loo_statistic := t\<rparr>"
    by blast
  show "x s' = x s" and "y s' = y s" and "basis_vectors s' = basis_vectors s"
    and "design_matrix s' = design_matrix s"
    using s' by simp_all
next
  assume "cell solve c = Inr c'"
  then have run: "for_loop (model_body solve) (arange 1 (int (length (basis_vectors c)) + 1)) c
      = Inr c'"
    by (simp add: cell_def)
  show "x c' = x c" and "y c' = y c" and "basis_vectors c' = basis_vectors c"
    using for_loop_model_body_update [OF run] by simp_all
qed

lemma loo_example:
  "loo lstsq example_state = Inr (example_state\<lparr>loo_statistic := 27 / 4\<rparr>)"
  by code_simp

lemma cell_example:
  "cell lstsq example_state
   = Inr (example_state\<lparr>design_matrix := \<lparr>ncols = 2, rows = [[1, 0], [1, 1], [1, 2]]\<rparr>,
            loo_statistic := 177 / 25, stdout := [(1, 27 / 4), (2, 177 / 25)]\<rparr>)"
  by code_simp

theorem inputs_unchanged_witness:
  "loo lstsq example_state = Inr (example_state\<lparr>loo_statistic := 27 / 4\<rparr>)
   \<and> cell lstsq example_state
     = Inr (example_state\<lparr>design_matrix := \<lparr>ncols = 2, rows = [[1, 0], [1, 1], [1, 2]]\<rparr>,
            loo_statistic := 177 / 25, stdout := [(1, 27 / 4), (2, 177 / 25)]\<rparr>)
   \<and> x (example_state\<lparr>loo_statistic := 27 / 4\<rparr>) = x example_state
   \<and> y (example_state\<lparr>loo_statistic := 27 / 4\<rparr>) = y example_state
   \<and> basis_vectors (example_state\<lparr>loo_statistic := 27 / 4\<rparr>) = basis_vectors example_state
   \<and> design_matrix (example_state\<lparr>loo_statistic := 27 / 4\<rparr>) = design_matrix example_state"
  using inputs_unchanged [of lstsq example_state "example_state\<lparr>loo_statistic := 27 / 4\<rparr>"
      example_state
      "example_state\<lparr>design_matrix := \<lparr>ncols = 2, rows = [[1, 0], [1, 1], [1, 2]]\<rparr>,
            loo_statistic := 177 / 25, stdout := [(1, 27 / 4), (2, 177 / 25)]\<rparr>"]
    loo_example cell_example
  by simp

section \<open>The solve and its failures\<close>

lemma length_mat_vec: "length (mat_vec rs v) = length rs"
  by (simp add: mat_vec_def)

lemma pinv_length: "length (pinv n cs) = length cs"
  by (induction cs) (simp_all add: pinv.simps Let_def length_mat_vec)

lemma columns_length: "length (columns a) = ncols a"
  by (simp add: columns_def)

lemma lstsq_total:
  assumes "length (rows a) = length b"
  shows "\<exists>betas. lstsq a b = Inr betas \<and> length betas = ncols a"
  using assms by (simp add: lstsq_def length_mat_vec pinv_length columns_length)

lemma lstsq_mismatch: "length (rows a) \<noteq> length b \<Longrightarrow> lstsq a b = Inl LinAlgError"
  by (simp add: lstsq_def)

text \<open>Whether a pass raises, and what, does not depend on the sum so far.\<close>

lemma loo_body_Inl_statistic:
  "loo_body solve i (s\<lparr>loo_statistic := t\<rparr>) = Inl e \<longleftrightarrow> loo_body solve i s = Inl e"
  by (simp add: loo_body_def Let_def and_then_def split: sum.splits)

lemma loo_body_solve_fails:
  assumes "take_indices (x s) (indices i (length (x s))) = Inr x_in"
    and "take_indices (y s) (indices i (length (x s))) = Inr y_in"
    and "take_rows (design_matrix s) (indices i (length (x s))) = Inr m_in"
    and "solve m_in y_in = Inl e"
  shows "loo_body solve i s = Inl e"
  using assms by (simp add: loo_body_def Let_def)

lemma for_loop_fails:
  assumes "i \<in> set js" and "loo_body solve i s = Inl e"
  shows "\<exists>e'. for_loop (loo_body solve) js s = Inl e'"
  using assms
proof (induction js arbitrary: s)
  case Nil
  then show ?case by simp
next
  case (Cons j js)
  show ?case
  proof (cases "loo_body solve j s")
    case (Inl e1)
    then show ?thesis by simp
  next
    case (Inr s1)
    with Cons.prems have "i \<noteq> j" by auto
    with Cons.prems have mem: "i \<in> set js" by simp
    from loo_body_update [OF Inr] obtain t where "s1 = s\<lparr>loo_statistic := t\<rparr>"
      by blast
    with Cons.prems have "loo_body solve i s1 = Inl e"
      by (simp add: loo_body_Inl_statistic)
    from Cons.IH [OF mem this] Inr show ?thesis by simp
  qed
qed

lemma for_loop_first_failure:
  assumes "\<forall>j\<in>set js. \<forall>e'. loo_body solve j s \<noteq> Inl e'"
    and "loo_body solve i s = Inl e"
  shows "for_loop (loo_body solve) (js @ i # ks) s = Inl e"
  using assms
proof (induction js arbitrary: s)
  case Nil
  then show ?case by simp
next
  case (Cons j js)
  from Cons.prems obtain s1 where first: "loo_body solve j s = Inr s1"
    by (cases "loo_body solve j s") auto
  from loo_body_update [OF first] obtain t where s1: "s1 = s\<lparr>loo_statistic := t\<rparr>"
    by blast
  have "\<forall>j\<in>set js. \<forall>e'. loo_body solve j s1 \<noteq> Inl e'"
    using Cons.prems(1) s1 by (simp add: loo_body_Inl_statistic)
  moreover have "loo_body solve i s1 = Inl e"
    using Cons.prems(2) s1 by (simp add: loo_body_Inl_statistic)
  ultimately have "for_loop (loo_body solve) (js @ i # ks) s1 = Inl e"
    by (rule Cons.IH)
  with first show ?case by simp
qed

lemma arange_split:
  assumes "a \<le> i" and "i < b"
  shows "arange a b = arange a i @ i # arange (i + 1) b"
proof -
  have "[a..b - 1] = [a..i - 1] @ [i..b - 1]"
    using assms upto_split1 [of a i "b - 1"] by simp
  also have "[i..b - 1] = i # [i + 1..b - 1]"
    using assms by (simp add: upto_rec1)
  finally show ?thesis by (simp add: arange_def)
qed

lemma set_arange: "set (arange a b) = {a..<b}"
  by (auto simp add: arange_def)

lemma loo_fails:
  assumes "0 \<le> i" and "i < int (length (x s))" and "loo_body solve i s = Inl e"
  shows "\<exists>e'. loo solve s = Inl e'"
proof -
  have "i \<in> set (arange 0 (int (length (x s))))"
    using assms(1,2) by (simp add: set_arange)
  moreover have "loo_body solve i (s\<lparr>loo_statistic := 0\<rparr>) = Inl e"
    using assms(3) by (simp add: loo_body_Inl_statistic)
  ultimately obtain e'
    where "for_loop (loo_body solve) (arange 0 (int (length (x s)))) (s\<lparr>loo_statistic := 0\<rparr>)
           = Inl e'"
    using for_loop_fails by blast
  then show ?thesis by (simp add: loo_def)
qed

lemma loo_first_failure:
  assumes "0 \<le> i" and "i < int (length (x s))" and "loo_body solve i s = Inl e"
    and "\<forall>j\<in>{0..<i}. \<forall>e'. loo_body solve j s \<noteq> Inl e'"
  shows "loo solve s = Inl e"
proof -
  let ?s0 = "s\<lparr>loo_statistic := 0\<rparr>"
  let ?n = "int (length (x s))"
  have split: "arange 0 ?n = arange 0 i @ i # arange (i + 1) ?n"
    using assms(1,2) by (rule arange_split)
  have "\<forall>j\<in>set (arange 0 i). \<forall>e'. loo_body solve j ?s0 \<noteq> Inl e'"
    using assms(4) by (simp add: set_arange loo_body_Inl_statistic)
  moreover have "loo_body solve i ?s0 = Inl e"
    using assms(3) by (simp add: loo_body_Inl_statistic)
  ultimately have "for_loop (loo_body solve) (arange 0 i @ i # arange (i + 1) ?n) ?s0 = Inl e"
    by (rule for_loop_first_failure)
  then show ?thesis by (simp add: loo_def split)
qed

lemma for_loop_succeeds:
  assumes "\<forall>j\<in>set js. \<forall>e. loo_body solve j s \<noteq> Inl e"
  shows "\<exists>s'. for_loop (loo_body solve) js s = Inr s'"
  using assms
proof (induction js arbitrary: s)
  case Nil
  then show ?case by simp
next
  case (Cons j js)
  from Cons.prems obtain s1 where first: "loo_body solve j s = Inr s1"
    by (cases "loo_body solve j s") auto
  from loo_body_update [OF first] obtain t where s1: "s1 = s\<lparr>loo_statistic := t\<rparr>"
    by blast
  have "\<forall>j\<in>set js. \<forall>e. loo_body solve j s1 \<noteq> Inl e"
    using Cons.prems s1 by (simp add: loo_body_Inl_statistic)
  from Cons.IH [OF this] first show ?case by simp
qed

lemma indices_in_range:
  assumes "0 \<le> i" and "i < int n" and "j \<in> set (indices i n)"
  shows "0 \<le> j \<and> j < int n"
  using assms by (auto simp add: indices_def np_r_def arange_def)

lemma take_indices_in_range:
  assumes "\<forall>j\<in>set js. 0 \<le> j \<and> j < int (length xs)"
  shows "take_indices xs js = Inr (map (\<lambda>j. xs ! nat j) js)"
  using assms by (auto simp add: take_indices_def Let_def list_all_iff)

text \<open>
  On data of matching sizes no pass of the notebook's loop raises, however few the rows
  and however many the columns.
\<close>

lemma loo_body_lstsq_succeeds:
  assumes "length (y s) = length (x s)"
    and "length (rows (design_matrix s)) = length (x s)"
    and "wf_matrix (design_matrix s)"
    and "0 \<le> i" and "i < int (length (x s))"
  shows "loo_body lstsq i s \<noteq> Inl e"
proof -
  let ?n = "length (x s)"
  let ?idx = "indices i ?n"
  have rng: "\<forall>j\<in>set ?idx. 0 \<le> j \<and> j < int ?n"
    using indices_in_range [OF assms(4,5)] by blast
  have x_in: "take_indices (x s) ?idx = Inr (map (\<lambda>j. x s ! nat j) ?idx)"
    using rng by (rule take_indices_in_range)
  have y_in: "take_indices (y s) ?idx = Inr (map (\<lambda>j. y s ! nat j) ?idx)"
    using rng assms(1) by (simp add: take_indices_in_range)
  have m_in: "take_rows (design_matrix s) ?idx
      = Inr \<lparr>ncols = ncols (design_matrix s),
             rows = map (\<lambda>j. rows (design_matrix s) ! nat j) ?idx\<rparr>"
    using rng assms(2) by (simp add: take_rows_def take_indices_in_range)
  obtain betas where solve: "lstsq \<lparr>ncols = ncols (design_matrix s),
             rows = map (\<lambda>j. rows (design_matrix s) ! nat j) ?idx\<rparr>
          (map (\<lambda>j. y s ! nat j) ?idx) = Inr betas"
    and len: "length betas = ncols (design_matrix s)"
    using lstsq_total [of "\<lparr>ncols = ncols (design_matrix s),
             rows = map (\<lambda>j. rows (design_matrix s) ! nat j) ?idx\<rparr>"
          "map (\<lambda>j. y s ! nat j) ?idx"]
    by auto
  have r: "row (design_matrix s) i = Inr (rows (design_matrix s) ! nat i)"
    using assms(2,4,5) by (simp add: row_def getitem_def)
  have "length (rows (design_matrix s) ! nat i) = ncols (design_matrix s)"
    using assms(2,3,4,5) by (simp add: wf_matrix_def list_all_length)
  then have mm: "matmul (rows (design_matrix s) ! nat i) betas
      = Inr (dot (rows (design_matrix s) ! nat i) betas)"
    using len by (simp add: matmul_def)
  have y_i: "getitem (y s) i = Inr (y s ! nat i)"
    using assms(1,4,5) by (simp add: getitem_def)
  show ?thesis
    by (simp add: loo_body_def Let_def x_in y_in m_in solve r mm y_i)
qed

lemma loo_lstsq_total:
  assumes "length (y s) = length (x s)"
    and "length (rows (design_matrix s)) = length (x s)"
    and "wf_matrix (design_matrix s)"
    and "x s \<noteq> []"
  shows "\<exists>t. loo lstsq s = Inr (s\<lparr>loo_statistic := t\<rparr>) \<and> 0 \<le> t"
proof -
  let ?s0 = "s\<lparr>loo_statistic := 0\<rparr>"
  have "\<forall>j\<in>set (arange 0 (int (length (x s)))). \<forall>e. loo_body lstsq j ?s0 \<noteq> Inl e"
    using assms(1,2,3) by (simp add: set_arange loo_body_lstsq_succeeds)
  then obtain s1
    where run: "for_loop (loo_body lstsq) (arange 0 (int (length (x s)))) ?s0 = Inr s1"
    using for_loop_succeeds by blast
  from for_loop_loo_body_update [OF run] have xs: "x s1 = x s"
    by auto
  with run assms(4) obtain s' where "loo lstsq s = Inr s'"
    by (simp add: loo_def)
  with loo_update [OF this] show ?thesis
    by auto
qed

text \<open>
  A system with fewer rows than columns is solved, not rejected: one equation in two
  unknowns, \<open>b\<^sub>0 + b\<^sub>1 = 2\<close>, gets its solution of smallest norm, and the statistic of
  two observations under a model of two columns is computed (the passes fit on row 1
  alone and on no row at all).
\<close>

theorem lstsq_underdetermined_counterexample:
  "lstsq \<lparr>ncols = 2, rows = [[1, 1]]\<rparr> [2] = Inr [1, 1]
   \<and> loo lstsq two_point_state = Inr (two_point_state\<lparr>loo_statistic := 109 / 8\<rparr>)"
  by code_simp

text \<open>
  Claim C3, as the code has it. The solve does not fail on a design matrix with fewer
  rows than columns: whenever the matrix and the observations have the same number of
  rows it returns one weight per column. Inside the loop nothing catches an exception:
  if the solve of some pass \<open>i\<close> raises, the statistic of the model is not computed
  but raises too, and it raises that very exception when no earlier pass raised.
\<close>

theorem solve_failure_propagates:
  "(length (rows a) = length b \<longrightarrow> (\<exists>betas. lstsq a b = Inr betas \<and> length betas = ncols a))
   \<and> (0 \<le> i \<and> i < int (length (x s))
        \<and> take_indices (x s) (indices i (length (x s))) = Inr x_in
        \<and> take_indices (y s) (indices i (length (x s))) = Inr y_in
        \<and> take_rows (design_matrix s) (indices i (length (x s))) = Inr m_in
        \<and> solve m_in y_in = Inl e \<longrightarrow>
      (\<exists>e'. loo solve s = Inl e')
      \<and> ((\<forall>j\<in>{0..<i}. \<forall>e'. loo_body solve j s \<noteq> Inl e') \<longrightarrow> loo solve s = Inl e))"
proof (intro conjI impI)
  assume "length (rows a) = length b"
  then show "\<exists>betas. lstsq a b = Inr betas \<and> length betas = ncols a"
    by (rule lstsq_total)
next
  assume h: "0 \<le> i \<and> i < int (length (x s))
        \<and> take_indices (x s) (indices i (length (x s))) = Inr x_in
        \<and> take_indices (y s) (indices i (length (x s))) = Inr y_in
        \<and> take_rows (design_matrix s) (indices i (length (x s))) = Inr m_in
        \<and> solve m_in y_in = Inl e"
  then have body: "loo_body solve i s = Inl e"
    using loo_body_solve_fails [of s i x_in y_in m_in solve e] by simp
  show "\<exists>e'. loo solve s = Inl e'"
    using h body loo_fails [of i s solve e] by simp
  assume "\<forall>j\<in>{0..<i}. \<forall>e'. loo_body solve j s \<noteq> Inl e'"
  then show "loo solve s = Inl e"
    using h body loo_first_failure [of i s solve e] by simp
qed

lemma loo_body_line_first:
  "loo_body checked_lstsq 0 line_state = Inr (line_state\<lparr>loo_statistic := 9\<rparr>)"
  by code_simp

theorem solve_failure_propagates_witness:
  "length (rows \<lparr>ncols = 2, rows = [[1, 1]]\<rparr>) = length [2 :: real]
   \<and> (1 :: int) < int (length (x line_state))
   \<and> take_indices (x line_state) (indices 1 (length (x line_state))) = Inr [2]
   \<and> take_indices (y line_state) (indices 1 (length (x line_state))) = Inr [3]
   \<and> take_rows (design_matrix line_state) (indices 1 (length (x line_state)))
       = Inr \<lparr>ncols = 2, rows = [[1, 2]]\<rparr>
   \<and> checked_lstsq \<lparr>ncols = 2, rows = [[1, 2]]\<rparr> [3] = Inl LinAlgError
   \<and> loo_body checked_lstsq 0 line_state = Inr (line_state\<lparr>loo_statistic := 9\<rparr>)
   \<and> (\<exists>betas. lstsq \<lparr>ncols = 2, rows = [[1, 1]]\<rparr> [2] = Inr betas
         \<and> length betas = ncols \<lparr>ncols = 2, rows = [[1, 1]]\<rparr>)
   \<and> loo checked_lstsq line_state = Inl LinAlgError"
proof -
  let ?s = line_state
  let ?a = "\<lparr>ncols = 2, rows = [[1, 1 :: real]]\<rparr>"
  let ?m = "\<lparr>ncols = 2, rows = [[1, 2 :: real]]\<rparr>"
  have idx: "indices 1 (length (x ?s)) = [2]"
    by (simp add: line_state_def example_state_def indices_def np_r_def arange_def upto.simps)
  have h0: "length (rows ?a) = length [2 :: real]"
    by simp
  have hi: "(0 :: int) \<le> 1" "(1 :: int) < int (length (x ?s))"
    by (simp_all add: line_state_def example_state_def)
  have h1: "take_indices (x ?s) (indices 1 (length (x ?s))) = Inr [2]"
    unfolding idx by (simp add: line_state_def example_state_def take_indices_def)
  have h2: "take_indices (y ?s) (indices 1 (length (x ?s))) = Inr [3]"
    unfolding idx by (simp add: line_state_def example_state_def take_indices_def)
  have h3: "take_rows (design_matrix ?s) (indices 1 (length (x ?s))) = Inr ?m"
    unfolding idx
    by (simp add: line_state_def example_state_def take_rows_def take_indices_def)
  have h4: "checked_lstsq ?m [3] = Inl LinAlgError"
    by (simp add: checked_lstsq_def)
  have "{0..<1 :: int} = {0}"
    by auto
  then have h5: "\<forall>j\<in>{0..<1 :: int}. \<forall>e'. loo_body checked_lstsq j ?s \<noteq> Inl e'"
    by (simp add: loo_body_line_first)
  note inst = solve_failure_propagates
    [of ?a "[2]" 1 ?s "[2]" "[3]" ?m checked_lstsq LinAlgError]
  from inst h0 have c1: "\<exists>betas. lstsq ?a [2] = Inr betas \<and> length betas = ncols ?a"
    by blast
  from inst hi h1 h2 h3 h4 h5 have c2: "loo checked_lstsq ?s = Inl LinAlgError"
    by blast
  from h0 hi(2) h1 h2 h3 h4 loo_body_line_first c1 c2 show ?thesis
    by blast
qed

section \<open>Vectors\<close>

lemma length_vadd: "length (vadd a b) = min (length a) (length b)"
  by (simp add: vadd_def)

lemma length_vsub: "length (vsub a b) = min (length a) (length b)"
  by (simp add: vsub_def)

lemma length_smult: "length (smult c a) = length a"
  by (simp add: smult_def)

lemma dot_Nil [simp]: "dot [] b = 0" "dot a [] = 0"
  by (simp_all add: dot_def)

lemma dot_Cons [simp]: "dot (u # a) (v # b) = u * v + dot a b"
  by (simp add: dot_def)

lemma dot_commute: "dot a b = dot b a"
  by (induction a b rule: list_induct2') (simp_all add: mult.commute)

lemma dot_smult: "dot (smult c a) b = c * dot a b"
  by (induction a b rule: list_induct2') (simp_all add: smult_def algebra_simps)

lemma dot_vadd:
  "length a = length b \<Longrightarrow> dot (vadd a b) w = dot a w + dot b w"
proof (induction a b arbitrary: w rule: list_induct2)
  case Nil
  then show ?case by (simp add: vadd_def)
next
  case (Cons u a v b)
  then show ?case
    by (cases w) (simp_all add: vadd_def algebra_simps)
qed

lemma dot_vsub:
  "length a = length b \<Longrightarrow> dot (vsub a b) w = dot a w - dot b w"
proof (induction a b arbitrary: w rule: list_induct2)
  case Nil
  then show ?case by (simp add: vsub_def)
next
  case (Cons u a v b)
  then show ?case
    by (cases w) (simp_all add: vsub_def algebra_simps)
qed

lemma dot_zero: "dot (replicate n 0) w = 0"
proof (induction n arbitrary: w)
  case 0
  then show ?case by simp
next
  case (Suc n)
  then show ?case by (cases w) simp_all
qed

lemma dot_self_nonneg: "0 \<le> dot a a"
  by (induction a) simp_all

lemma dot_self_zero: "dot a a = 0 \<Longrightarrow> a = replicate (length a) 0"
proof (induction a)
  case Nil
  then show ?case by simp
next
  case (Cons u a)
  have "0 \<le> u * u" and "0 \<le> dot a a"
    by (simp_all add: dot_self_nonneg)
  with Cons.prems have "u * u = 0" and "dot a a = 0"
    by (simp_all add: add_nonneg_eq_0_iff)
  with Cons.IH show ?case by simp
qed

lemma vectors_Nil [simp]: "vectors n []"
  by (simp add: vectors_def)

lemma vectors_Cons [simp]: "vectors n (v # vs) \<longleftrightarrow> length v = n \<and> vectors n vs"
  by (simp add: vectors_def)

lemma length_lincomb: "vectors n vs \<Longrightarrow> length (lincomb n cs vs) = n"
  by (induction n cs vs rule: lincomb.induct) (simp_all add: length_vadd length_smult)

lemma lincomb_Nil_left [simp]: "lincomb n [] vs = replicate n 0"
  by simp

lemma lincomb_Nil_right [simp]: "lincomb n cs [] = replicate n 0"
  by (cases cs) simp_all

lemma dot_lincomb_zero:
  assumes "vectors n vs" and "\<forall>v\<in>set vs. dot v w = 0"
  shows "dot (lincomb n cs vs) w = 0"
  using assms
proof (induction n cs vs rule: lincomb.induct)
  case (1 n c cs v vs)
  then show ?case
    by (simp add: dot_vadd length_smult length_lincomb dot_smult)
qed (simp_all add: dot_zero)

section \<open>The pseudo-inverse\<close>

lemma mat_vec_Nil [simp]: "mat_vec [] v = []"
  by (simp add: mat_vec_def)

lemma mat_vec_Cons [simp]: "mat_vec (r # rs) v = dot r v # mat_vec rs v"
  by (simp add: mat_vec_def)

text \<open>The dot product with a combination of vectors.\<close>

lemma dot_lincomb_mat_vec:
  "vectors n vs \<Longrightarrow> dot (lincomb n cs vs) w = dot cs (mat_vec vs w)"
proof (induction n cs vs rule: lincomb.induct)
  case (1 n c cs v vs)
  then show ?case
    by (simp add: dot_vadd length_smult length_lincomb dot_smult)
qed (simp_all add: dot_zero)

text \<open>The rows of the pseudo-inverse have the length of the columns.\<close>

lemma vectors_pinv: "vectors n A \<Longrightarrow> vectors n (pinv n A)"
proof (induction A)
  case Nil
  then show ?case by simp
next
  case (Cons a A)
  define P where "P = pinv n A"
  define d where "d = mat_vec P a"
  define c where "c = vsub a (lincomb n d A)"
  define b where "b = (if dot c c \<noteq> 0 then smult (1 / dot c c) c
               else smult (1 / (1 + dot d d)) (lincomb n d P))"
  have P: "vectors n P" and a: "length a = n" and A: "vectors n A"
    using Cons by (simp_all add: P_def)
  have "length c = n"
    using a A by (simp add: c_def length_vsub length_lincomb)
  moreover have "length (lincomb n d P) = n"
    using P by (rule length_lincomb)
  ultimately have b: "length b = n"
    by (simp add: b_def length_smult)
  have rest: "vectors n (map2 (\<lambda>dj p. vsub p (smult dj b)) ds P)" for ds
    using P
  proof (induction P arbitrary: ds)
    case Nil
    then show ?case by simp
  next
    case (Cons p P)
    then show ?case
      by (cases ds) (simp_all add: length_vsub length_smult b)
  qed
  have "pinv n (a # A) = b # map2 (\<lambda>dj p. vsub p (smult dj b)) d P"
    by (simp add: pinv.simps Let_def P_def d_def c_def b_def)
  with b rest show ?case by simp
qed

text \<open>Applying the updated rows of the recursion to a vector.\<close>

lemma mat_vec_update:
  assumes "vectors n P" and "length b = n" and "length ds = length P"
  shows "mat_vec (map2 (\<lambda>dj p. vsub p (smult dj b)) ds P) v
         = vsub (mat_vec P v) (smult (dot b v) ds)"
  using assms(3,1)
proof (induction ds P rule: list_induct2)
  case Nil
  then show ?case by (simp add: vsub_def)
next
  case (Cons dj ds p P)
  then show ?case
    using assms(2) by (simp add: vsub_def smult_def dot_vsub [unfolded vsub_def] dot_smult [unfolded smult_def])
qed

lemma length_fitted: "vectors n A \<Longrightarrow> length (fitted n A v) = n"
  by (simp add: fitted_def length_lincomb)

text \<open>
  One step of the recursion, seen through dot products: the new column \<open>a\<close> adds to the
  fitted values the part \<open>c\<close> of \<open>a\<close> that the earlier columns do not reach, weighted by
  the new row \<open>b\<close>.
\<close>

lemma fitted_step:
  assumes "vectors n (a # A)"
  defines "c \<equiv> vsub a (fitted n A a)"
  defines "b \<equiv> hd (pinv n (a # A))"
  shows "dot (fitted n (a # A) v) w = dot (fitted n A v) w + dot b v * dot c w"
proof -
  define P where "P = pinv n A"
  define d where "d = mat_vec P a"
  have A: "vectors n A" and a: "length a = n"
    using assms(1) by simp_all
  have P: "vectors n P"
    using A by (simp add: P_def vectors_pinv)
  have c: "c = vsub a (lincomb n d A)"
    by (simp add: c_def fitted_def d_def P_def)
  have step: "pinv n (a # A) = b # map2 (\<lambda>dj p. vsub p (smult dj b)) d P"
    by (simp add: b_def Let_def P_def d_def pinv.simps)
  have "vectors n (pinv n (a # A))"
    using assms(1) by (rule vectors_pinv)
  then have "vectors n (b # map2 (\<lambda>dj p. vsub p (smult dj b)) d P)"
    by (simp only: step)
  then have b: "length b = n"
    by simp
  have len: "length d = length P" "length P = length A"
    by (simp_all add: d_def length_mat_vec P_def pinv_length)
  have rows: "mat_vec (pinv n (a # A)) v = dot b v # vsub (mat_vec P v) (smult (dot b v) d)"
    using mat_vec_update [OF P b len(1)] by (simp only: step mat_vec_Cons)
  have "dot (fitted n (a # A) v) w = dot (mat_vec (pinv n (a # A)) v) (mat_vec (a # A) w)"
    using assms(1) by (simp only: fitted_def dot_lincomb_mat_vec)
  also have "\<dots> = dot b v * dot a w
      + dot (vsub (mat_vec P v) (smult (dot b v) d)) (mat_vec A w)"
    by (simp add: rows)
  also have "dot (vsub (mat_vec P v) (smult (dot b v) d)) (mat_vec A w)
      = dot (mat_vec P v) (mat_vec A w) - dot b v * dot d (mat_vec A w)"
    using len by (simp add: dot_vsub length_mat_vec length_smult dot_smult)
  also have "dot (mat_vec P v) (mat_vec A w) = dot (fitted n A v) w"
    using A by (simp add: fitted_def dot_lincomb_mat_vec P_def)
  also have "dot d (mat_vec A w) = dot (lincomb n d A) w"
    using A by (simp add: dot_lincomb_mat_vec)
  also have "dot (lincomb n d A) w = dot a w - dot c w"
    using a A by (simp add: c dot_vsub length_lincomb)
  finally show ?thesis
    by (simp add: algebra_simps)
qed

lemma hd_pinv:
  "hd (pinv n (a # A)) =
     (let c = vsub a (fitted n A a); d = mat_vec (pinv n A) a
      in if dot c c \<noteq> 0 then smult (1 / dot c c) c
         else smult (1 / (1 + dot d d)) (lincomb n d (pinv n A)))"
  by (simp add: Let_def fitted_def pinv.simps)

text \<open>
  The normal equations: the residual of the fitted values is orthogonal to every
  column.
\<close>

lemma residual_orthogonal:
  assumes "vectors n A" and "length v = n" and "u \<in> set A"
  shows "dot u (vsub v (fitted n A v)) = 0"
  using assms
proof (induction A arbitrary: v u)
  case Nil
  then show ?case by simp
next
  case (Cons a A)
  define c where "c = vsub a (fitted n A a)"
  define b where "b = hd (pinv n (a # A))"
  define r where "r = vsub v (fitted n A v)"
  have A: "vectors n A" and a: "length a = n"
    using Cons.prems(1) by simp_all
  have c_orth: "dot w c = 0" if "w \<in> set A" for w
    using Cons.IH [OF A a that] by (simp add: c_def)
  have r_orth: "dot w r = 0" if "w \<in> set A" for w
    using Cons.IH [OF A Cons.prems(2) that] by (simp add: r_def)
  have len_c: "length c = n" and len_r: "length r = n"
    using A a Cons.prems(2) by (simp_all add: c_def r_def length_vsub length_fitted)
  have fit_c: "dot (fitted n A w) c = 0" for w
    unfolding fitted_def using A c_orth by (rule dot_lincomb_zero [OF _ ballI])
  have fit_r: "dot (fitted n A w) r = 0" for w
    unfolding fitted_def using A r_orth by (rule dot_lincomb_zero [OF _ ballI])
  have res: "dot (vsub v (fitted n (a # A) v)) w = dot r w - dot b v * dot c w" for w
  proof -
    have "dot (vsub v (fitted n (a # A) v)) w = dot v w - dot (fitted n (a # A) v) w"
      using Cons.prems(1,2) by (simp add: dot_vsub length_fitted)
    also have "dot (fitted n (a # A) v) w = dot (fitted n A v) w + dot b v * dot c w"
      unfolding b_def c_def using Cons.prems(1) by (rule fitted_step)
    also have "dot v w - (dot (fitted n A v) w + dot b v * dot c w)
        = dot r w - dot b v * dot c w"
      using A Cons.prems(2) by (simp add: r_def dot_vsub length_fitted)
    finally show ?thesis .
  qed
  show ?case
  proof (cases "u \<in> set A")
    case True
    have "dot (vsub v (fitted n (a # A) v)) u = 0"
      using res [of u] r_orth [OF True] c_orth [OF True] by (simp add: dot_commute [of _ u])
    then show ?thesis by (simp only: dot_commute [of u])
  next
    case False
    with Cons.prems(3) have u: "u = a" by simp
    have cw: "dot c w = dot a w - dot (fitted n A a) w" for w
      using a A by (simp add: c_def dot_vsub length_fitted)
    have ca: "dot c a = dot c c"
      using cw [of c] by (simp add: fit_c dot_commute [of a])
    have ra: "dot r a = dot c v"
    proof -
      have "dot a r = dot c r"
        using cw [of r] by (simp add: fit_r)
      moreover have "dot r c = dot v c - dot (fitted n A v) c"
        using Cons.prems(2) A by (simp add: r_def dot_vsub length_fitted)
      ultimately show ?thesis by (simp add: fit_c dot_commute [of r] dot_commute [of v])
    qed
    have "dot b v * dot c c = dot c v"
    proof (cases "dot c c = 0")
      case True
      then have "c = replicate n 0"
        using dot_self_zero [of c] len_c by simp
      then have "dot c v = 0"
        using dot_zero [of n v] by simp
      with True show ?thesis by simp
    next
      case False
      then have "b = smult (1 / dot c c) c"
        by (simp add: b_def hd_pinv Let_def c_def)
      then show ?thesis
        using False by (simp add: dot_smult)
    qed
    then have "dot (vsub v (fitted n (a # A) v)) a = 0"
      using res [of a] ra ca by simp
    then show ?thesis by (simp only: u dot_commute [of a])
  qed
qed

lemma mat_vec_pinv_Cons:
  assumes "vectors n (a # A)"
  shows "mat_vec (pinv n (a # A)) v
         = dot (hd (pinv n (a # A))) v
           # vsub (mat_vec (pinv n A) v)
               (smult (dot (hd (pinv n (a # A))) v) (mat_vec (pinv n A) a))"
proof -
  define P where "P = pinv n A"
  define d where "d = mat_vec P a"
  define b where "b = hd (pinv n (a # A))"
  have P: "vectors n P"
    using assms by (simp add: P_def vectors_pinv)
  have step: "pinv n (a # A) = b # map2 (\<lambda>dj p. vsub p (smult dj b)) d P"
    by (simp add: b_def Let_def P_def d_def pinv.simps)
  have "vectors n (pinv n (a # A))"
    using assms by (rule vectors_pinv)
  then have "vectors n (b # map2 (\<lambda>dj p. vsub p (smult dj b)) d P)"
    by (simp only: step)
  then have b: "length b = n"
    by simp
  have len: "length d = length P"
    by (simp add: d_def length_mat_vec)
  have "mat_vec (pinv n (a # A)) v = dot b v # vsub (mat_vec P v) (smult (dot b v) d)"
    using mat_vec_update [OF P b len] by (simp only: step mat_vec_Cons)
  then show ?thesis
    by (simp only: b_def P_def d_def)
qed

lemma dot_mat_vec_orthogonal:
  "\<forall>u\<in>set A. dot u w = 0 \<Longrightarrow> dot z (mat_vec A w) = 0"
proof (induction A arbitrary: z)
  case Nil
  then show ?case by simp
next
  case (Cons a A)
  then show ?case by (cases z) simp_all
qed

text \<open>
  The weights are orthogonal to every combination of the columns that vanishes: among
  the weight vectors with the same fitted values they are the shortest.
\<close>

lemma pinv_null_orthogonal:
  assumes "vectors n A" and "length z = length A"
    and "\<And>w. length w = n \<Longrightarrow> dot z (mat_vec A w) = 0"
    and "length v = n"
  shows "dot z (mat_vec (pinv n A) v) = 0"
  using assms
proof (induction A arbitrary: z v)
  case Nil
  then show ?case by simp
next
  case (Cons a A)
  define P where "P = pinv n A"
  define d where "d = mat_vec P a"
  define c where "c = vsub a (fitted n A a)"
  define b where "b = hd (pinv n (a # A))"
  have A: "vectors n A" and a: "length a = n"
    using Cons.prems(1) by simp_all
  have P: "vectors n P"
    using A by (simp add: P_def vectors_pinv)
  from Cons.prems(2) obtain z0 zs where z: "z = z0 # zs" and zs: "length zs = length A"
    by (cases z) simp_all
  have lenP: "length P = length A" and lend: "length d = length A"
    by (simp_all add: P_def d_def pinv_length length_mat_vec)
  have H: "z0 * dot a w + dot zs (mat_vec A w) = 0" if "length w = n" for w
    using Cons.prems(3) [OF that] by (simp add: z)
  have c_orth: "\<forall>u\<in>set A. dot u c = 0"
    using residual_orthogonal [OF A a] by (simp add: c_def)
  have len_c: "length c = n"
    using A a by (simp add: c_def length_vsub length_fitted)
  have cw: "dot c w = dot a w - dot d (mat_vec A w)" for w
  proof -
    have "dot c w = dot a w - dot (fitted n A a) w"
      using a A by (simp add: c_def dot_vsub length_fitted)
    also have "dot (fitted n A a) w = dot d (mat_vec A w)"
      using A by (simp add: fitted_def dot_lincomb_mat_vec d_def P_def)
    finally show ?thesis .
  qed
  have rows: "mat_vec (pinv n (a # A)) v
      = dot b v # vsub (mat_vec P v) (smult (dot b v) d)"
    using mat_vec_pinv_Cons [OF Cons.prems(1)] by (simp only: b_def P_def d_def)
  have goal: "dot z (mat_vec (pinv n (a # A)) v)
      = z0 * dot b v + dot zs (mat_vec P v) - dot b v * dot zs d"
  proof -
    have "dot (vsub (mat_vec P v) (smult (dot b v) d)) zs
        = dot (mat_vec P v) zs - dot b v * dot d zs"
      using lenP lend by (simp add: dot_vsub length_mat_vec length_smult dot_smult)
    then show ?thesis
      by (simp add: rows z dot_commute [of zs])
  qed
  show ?case
  proof (cases "dot c c = 0")
    case False
    have "dot zs (mat_vec A c) = 0"
      using c_orth by (rule dot_mat_vec_orthogonal)
    moreover have "dot a c = dot c c"
      using cw [of c] dot_mat_vec_orthogonal [OF c_orth, of d] by (simp add: dot_commute [of a])
    ultimately have "z0 * dot c c = 0"
      using H [OF len_c] by simp
    with False have z0: "z0 = 0" by simp
    have zero: "dot zs (mat_vec P w) = 0" if "length w = n" for w
      unfolding P_def
    proof (rule Cons.IH [OF A zs _ that])
      fix w' :: vector
      assume "length w' = n"
      from H [OF this] show "dot zs (mat_vec A w') = 0"
        by (simp add: z0)
    qed
    have "dot zs (mat_vec P v) = 0"
      using Cons.prems(4) by (rule zero)
    moreover have "dot zs d = 0"
      unfolding d_def using a by (rule zero)
    ultimately show ?thesis
      by (simp add: goal z0)
  next
    case True
    then have "c = replicate n 0"
      using dot_self_zero [of c] len_c by simp
    then have "dot c w = 0" for w
      using dot_zero [of n w] by simp
    then have aw: "dot a w = dot d (mat_vec A w)" for w
      using cw [of w] by simp
    define u where "u = vadd (smult z0 d) zs"
    have len_u: "length u = length A"
      by (simp add: u_def length_vadd length_smult lend zs)
    have du: "dot u t = z0 * dot d t + dot zs t" for t
      by (simp add: u_def dot_vadd length_smult lend zs dot_smult)
    have star: "z0 * dot d (mat_vec P w) + dot zs (mat_vec P w) = 0" if "length w = n" for w
    proof -
      have "dot u (mat_vec P w) = 0"
        unfolding P_def
      proof (rule Cons.IH [OF A len_u _ that])
        fix w' :: vector
        assume "length w' = n"
        from H [OF this] show "dot u (mat_vec A w') = 0"
          by (simp add: du aw)
      qed
      then show ?thesis by (simp add: du)
    qed
    have pos: "1 + dot d d \<noteq> 0"
      using dot_self_nonneg [of d] by simp
    have "b = smult (1 / (1 + dot d d)) (lincomb n d P)"
      using True by (simp add: b_def hd_pinv Let_def c_def d_def P_def)
    then have bv: "dot b v = dot d (mat_vec P v) / (1 + dot d d)"
      using P by (simp add: dot_smult dot_lincomb_mat_vec)
    have e1: "dot zs (mat_vec P v) = - z0 * dot d (mat_vec P v)"
      using star [OF Cons.prems(4)] by simp
    have e2: "dot zs d = - z0 * dot d d"
      using star [OF a] by (simp add: d_def)
    show ?thesis
      using pos by (simp add: goal bv e1 e2 field_simps)
  qed
qed

section \<open>The exact solve: the least-squares solution of smallest norm\<close>

text \<open>
  The lemmas of this section and of the two before it are about \<open>lstsq\<close>, the solve
  in exact arithmetic. They say that the model is the one its description names; they are not
  statements about the floating-point routine.
\<close>

lemma nth_lincomb:
  "vectors n vs \<Longrightarrow> i < n \<Longrightarrow> lincomb n cs vs ! i = dot cs (map (\<lambda>v. v ! i) vs)"
proof (induction n cs vs rule: lincomb.induct)
  case (1 n c cs v vs)
  then show ?case
    by (simp add: vadd_def smult_def length_lincomb)
qed simp_all

lemma vectors_columns: "vectors (length (rows X)) (columns X)"
  by (simp add: vectors_def columns_def list_all_iff)

lemma mat_vec_rows_columns:
  assumes "wf_matrix X" and "length g = ncols X"
  shows "mat_vec (rows X) g = lincomb (length (rows X)) g (columns X)"
proof (rule nth_equalityI)
  show "length (mat_vec (rows X) g) = length (lincomb (length (rows X)) g (columns X))"
    by (simp add: length_mat_vec length_lincomb vectors_columns)
next
  fix i
  assume "i < length (mat_vec (rows X) g)"
  then have i: "i < length (rows X)"
    by (simp add: length_mat_vec)
  with assms(1) have len: "length (rows X ! i) = ncols X"
    by (simp add: wf_matrix_def list_all_length)
  have "map (\<lambda>v. v ! i) (columns X) = map (\<lambda>j. rows X ! i ! j) [0..<ncols X]"
    using i by (simp add: columns_def)
  also have "\<dots> = rows X ! i"
    using len map_nth [of "rows X ! i"] by simp
  finally have "lincomb (length (rows X)) g (columns X) ! i = dot g (rows X ! i)"
    using i by (simp add: nth_lincomb vectors_columns)
  then show "mat_vec (rows X) g ! i = lincomb (length (rows X)) g (columns X) ! i"
    using i by (simp add: mat_vec_def dot_commute [of g])
qed

text \<open>What \<open>lstsq\<close> returns, and its residual.\<close>

lemma lstsq_eq:
  "length (rows X) = length ys
   \<Longrightarrow> lstsq X ys = Inr (mat_vec (pinv (length ys) (columns X)) ys)"
  by (simp add: lstsq_def)

lemma residual_lstsq:
  assumes "wf_matrix X" and "length (rows X) = length ys"
  shows "residual X ys (mat_vec (pinv (length ys) (columns X)) ys)
         = vsub ys (fitted (length ys) (columns X) ys)"
  using assms
  by (simp add: residual_def fitted_def mat_vec_rows_columns length_mat_vec pinv_length
      columns_length)

lemma dot_residual:
  assumes "wf_matrix X" and "length (rows X) = length ys" and "length g = ncols X"
  shows "dot (residual X ys g) w = dot ys w - dot g (mat_vec (columns X) w)"
proof -
  have "vectors (length ys) (columns X)"
    using vectors_columns [of X] assms(2) by simp
  then show ?thesis
    using assms
    by (simp add: residual_def mat_vec_rows_columns dot_vsub length_lincomb
        dot_lincomb_mat_vec)
qed

text \<open>
  The squared residual of any weights exceeds that of the solution by the squared
  length of the difference of the two residuals.
\<close>

lemma residual_gap:
  assumes "wf_matrix X" and "length (rows X) = length ys" and "length g = ncols X"
  defines "b \<equiv> mat_vec (pinv (length ys) (columns X)) ys"
  defines "e \<equiv> vsub (residual X ys g) (residual X ys b)"
  shows "dot e e = dot (residual X ys g) (residual X ys g)
                   - dot (residual X ys b) (residual X ys b)"
    and "dot e w = dot (vsub b g) (mat_vec (columns X) w)"
proof -
  let ?A = "columns X"
  let ?r = "residual X ys b"
  let ?rg = "residual X ys g"
  have cols: "vectors (length ys) ?A"
    using vectors_columns [of X] assms(2) by simp
  have len_b: "length b = ncols X"
    by (simp add: b_def length_mat_vec pinv_length columns_length)
  have len_r: "length ?r = length ys" "length ?rg = length ys"
    using assms(2) by (simp_all add: residual_def length_vsub length_mat_vec)
  have r: "?r = vsub ys (fitted (length ys) ?A ys)"
    unfolding b_def using assms(1,2) by (rule residual_lstsq)
  have orth: "\<forall>u\<in>set ?A. dot u ?r = 0"
    unfolding r using residual_orthogonal [OF cols refl] by blast
  have et: "dot e t = dot ?rg t - dot ?r t" for t
    by (simp add: e_def dot_vsub len_r)
  have ew: "dot e t = dot (vsub b g) (mat_vec ?A t)" for t
  proof -
    have "dot ?rg t - dot ?r t = dot b (mat_vec ?A t) - dot g (mat_vec ?A t)"
      using assms(1,2,3) len_b by (simp add: dot_residual)
    also have "\<dots> = dot (vsub b g) (mat_vec ?A t)"
      using assms(3) len_b by (simp add: dot_vsub)
    finally show ?thesis by (simp add: et)
  qed
  show "dot e w = dot (vsub b g) (mat_vec ?A w)"
    by (rule ew)
  have zero: "dot e ?r = 0"
    using ew [of ?r] dot_mat_vec_orthogonal [OF orth] by simp
  have cross: "dot ?rg ?r = dot ?r ?r"
    using et [of ?r] zero by simp
  have "dot e e = dot ?rg e - dot ?r e"
    by (rule et)
  also have "dot ?r e = 0"
    using zero by (simp only: dot_commute [of ?r e])
  also have "dot ?rg e = dot ?rg ?rg - dot ?r ?rg"
    using et [of ?rg] by (simp only: dot_commute [of ?rg e])
  also have "dot ?r ?rg = dot ?r ?r"
    using cross by (simp only: dot_commute [of ?r ?rg])
  finally show "dot e e = dot ?rg ?rg - dot ?r ?r"
    by simp
qed

text \<open>
  In exact arithmetic the residual of the returned weights is orthogonal to every
  column of the design matrix.
\<close>

lemma lstsq_residual_orthogonal:
  assumes "wf_matrix X" and "length (rows X) = length ys"
  shows "\<exists>betas. lstsq X ys = Inr betas \<and> length betas = ncols X
           \<and> (\<forall>j<ncols X. dot (columns X ! j) (residual X ys betas) = 0)"
proof -
  let ?b = "mat_vec (pinv (length ys) (columns X)) ys"
  have cols: "vectors (length ys) (columns X)"
    using vectors_columns [of X] assms(2) by simp
  have "residual X ys ?b = vsub ys (fitted (length ys) (columns X) ys)"
    using assms by (rule residual_lstsq)
  then have "dot u (residual X ys ?b) = 0" if "u \<in> set (columns X)" for u
    using residual_orthogonal [OF cols refl that] by simp
  then have "\<forall>j<ncols X. dot (columns X ! j) (residual X ys ?b) = 0"
    by (simp add: columns_length)
  moreover have "lstsq X ys = Inr ?b"
    using assms(2) by (rule lstsq_eq)
  moreover have "length ?b = ncols X"
    by (simp add: length_mat_vec pinv_length columns_length)
  ultimately show ?thesis by blast
qed

text \<open>
  The weights of the exact solve make the squared residual least; and any other weights that
  do so differ from them by a vector whose squared length is the difference of the two
  squared norms.
\<close>

lemma pinv_least_squares:
  assumes "wf_matrix X" and "length (rows X) = length ys"
  shows "is_least_squares X ys (mat_vec (pinv (length ys) (columns X)) ys)"
proof -
  let ?b = "mat_vec (pinv (length ys) (columns X)) ys"
  have len_b: "length ?b = ncols X"
    by (simp add: length_mat_vec pinv_length columns_length)
  have "dot (residual X ys ?b) (residual X ys ?b) \<le> dot (residual X ys g) (residual X ys g)"
    if "length g = ncols X" for g
    using residual_gap(1) [OF assms that]
      dot_self_nonneg [of "vsub (residual X ys g) (residual X ys ?b)"]
    by simp
  with len_b show ?thesis
    by (simp add: is_least_squares_def)
qed

lemma norm_gap:
  assumes "wf_matrix X" and "length (rows X) = length ys" and "is_least_squares X ys g"
  shows "dot (vsub (mat_vec (pinv (length ys) (columns X)) ys) g)
             (vsub (mat_vec (pinv (length ys) (columns X)) ys) g)
         = dot g g - dot (mat_vec (pinv (length ys) (columns X)) ys)
                         (mat_vec (pinv (length ys) (columns X)) ys)"
proof -
  let ?A = "columns X"
  let ?b = "mat_vec (pinv (length ys) ?A) ys"
  let ?e = "vsub (residual X ys g) (residual X ys ?b)"
  let ?d = "vsub ?b g"
  have cols: "vectors (length ys) ?A"
    using vectors_columns [of X] assms(2) by simp
  have len_b: "length ?b = ncols X"
    by (simp add: length_mat_vec pinv_length columns_length)
  from assms(3) have len_g: "length g = ncols X"
    and opt: "dot (residual X ys g) (residual X ys g) \<le> dot (residual X ys ?b) (residual X ys ?b)"
    using len_b by (simp_all add: is_least_squares_def)
  have "dot ?e ?e \<le> 0"
    using residual_gap(1) [OF assms(1,2) len_g] opt by simp
  with dot_self_nonneg [of ?e] have "dot ?e ?e = 0"
    by simp
  then have "?e = replicate (length ?e) 0"
    by (rule dot_self_zero)
  then have "dot ?e w = 0" for w
    using dot_zero [of "length ?e" w] by simp
  then have null: "dot ?d (mat_vec ?A w) = 0" for w
    using residual_gap(2) [OF assms(1,2) len_g] by simp
  have len_d: "length ?d = length ?A"
    using len_b len_g by (simp add: length_vsub columns_length)
  have db: "dot ?d ?b = 0"
    using pinv_null_orthogonal [OF cols len_d null refl] .
  then have bg: "dot g ?b = dot ?b ?b"
    using len_b len_g by (simp add: dot_vsub)
  have "dot ?d ?d = dot ?b ?d - dot g ?d"
    using dot_vsub [of ?b g ?d] len_b len_g by simp
  also have "dot ?b ?d = 0"
    using db by (simp only: dot_commute [of ?b ?d])
  also have "dot g ?d = dot ?b g - dot g g"
    using dot_vsub [of ?b g g] len_b len_g by (simp only: dot_commute [of g ?d])
  finally show ?thesis
    using bg by (simp add: dot_commute [of ?b g])
qed

lemma vsub_zero_eq:
  assumes "length a = length b" and "vsub a b = replicate (length a) 0"
  shows "a = b"
  using assms
  by (induction a b rule: list_induct2) (simp_all add: vsub_def)

text \<open>
  So the description determines the model: weights that make the squared residual least
  and are of least norm among such weights are the weights \<open>lstsq\<close> returns.
\<close>

lemma lstsq_unique:
  assumes "wf_matrix X" and "length (rows X) = length ys"
    and "is_least_squares X ys g" and "is_minimum_norm X ys g"
  shows "lstsq X ys = Inr g"
proof -
  let ?b = "mat_vec (pinv (length ys) (columns X)) ys"
  let ?d = "vsub ?b g"
  have len: "length ?b = length g"
    using assms(3) by (simp add: is_least_squares_def length_mat_vec pinv_length columns_length)
  have "dot g g \<le> dot ?b ?b"
    using assms(4) pinv_least_squares [OF assms(1,2)] by (simp add: is_minimum_norm_def)
  then have "dot ?d ?d \<le> 0"
    using norm_gap [OF assms(1,2,3)] by simp
  with dot_self_nonneg [of ?d] have "dot ?d ?d = 0"
    by simp
  then have "?d = replicate (length ?d) 0"
    by (rule dot_self_zero)
  then have "?d = replicate (length ?b) 0"
    using len by (simp add: length_vsub)
  with len have "?b = g"
    by (rule vsub_zero_eq)
  then show ?thesis
    using lstsq_eq [OF assms(2)] by simp
qed

text \<open>
  In exact arithmetic the returned weights make the squared residual least and are of
  least norm among the weights that do, whatever the rank of the design matrix.
\<close>

lemma lstsq_minimum_norm:
  assumes "wf_matrix X" and "length (rows X) = length ys"
  shows "\<exists>betas. lstsq X ys = Inr betas \<and> is_least_squares X ys betas
           \<and> is_minimum_norm X ys betas"
proof -
  let ?b = "mat_vec (pinv (length ys) (columns X)) ys"
  have ls: "is_least_squares X ys ?b"
    using assms by (rule pinv_least_squares)
  have "dot ?b ?b \<le> dot g g" if "is_least_squares X ys g" for g
    using norm_gap [OF assms that] dot_self_nonneg [of "vsub ?b g"] by simp
  then have "is_minimum_norm X ys ?b"
    by (simp add: is_minimum_norm_def)
  moreover have "lstsq X ys = Inr ?b"
    using assms(2) by (rule lstsq_eq)
  ultimately show ?thesis
    using ls by blast
qed

end
